theory Spec2Isabelle
  imports Main "HOL-Library.AList" "HOL-Library.Multiset"
begin

section \<open>Shared utilities of the VeRyPy routing heuristics (verypy/util.py)\<close>

text \<open>
  Node ids and vehicle counts are Python integers (\<open>int\<close>); the depot is node \<open>0\<close>.
  Distances and objective values are numbers of a type left open: a linear order where
  they are compared, and no more than a zero and an addition where they are summed, so
  that integers and rounding floats are both instances. Python's \<open>None\<close> is \<open>None\<close>
  of an option type, and an exception is the \<open>Inl\<close> branch of a sum.
\<close>

datatype error = InvalidInput | KeyError | IndexError

subsection \<open>is_better_sol\<close>

text \<open>
  \<^verbatim>\<open>
  def is_better_sol(best_f, best_K, sol_f, sol_K, minimize_K):
      if sol_f is None or sol_K is None:
          return False
      if best_f is None or best_K is None:
          return True
      elif minimize_K:
          return (sol_K<best_K) or (sol_K==best_K and sol_f<best_f)
      else:
          return sol_f<best_f
  \<close>
\<close>

definition is_better_sol ::
  "'f::linorder option \<Rightarrow> int option \<Rightarrow> 'f option \<Rightarrow> int option \<Rightarrow> bool \<Rightarrow> bool" where
  "is_better_sol best_f best_K sol_f sol_K minimize_K =
     (if sol_f = None \<or> sol_K = None then False
      else if best_f = None \<or> best_K = None then True
      else if minimize_K then
        (the sol_K < the best_K) \<or> (the sol_K = the best_K \<and> the sol_f < the best_f)
      else the sol_f < the best_f)"

subsection \<open>itertools.groupby\<close>

text \<open>
  The codec relies on Python's \<open>itertools.groupby(iterable, key)\<close>, which cuts the
  input into maximal runs of consecutive items with equal key and yields, for each run,
  the key and the items of the run. Without a key function the item is its own key.
\<close>

function groupby :: "('a \<Rightarrow> 'k) \<Rightarrow> 'a list \<Rightarrow> ('k \<times> 'a list) list" where
  "groupby key [] = []"
| "groupby key (x # xs) =
     (key x, x # takeWhile (\<lambda>y. key y = key x) xs)
       # groupby key (dropWhile (\<lambda>y. key y = key x) xs)"
  by pat_completeness auto
termination
  by (relation "measure (\<lambda>(key, xs). length xs)")
     (auto simp: less_Suc_eq_le length_dropWhile_le)

subsection \<open>without_empty_routes and sol2routes\<close>

text \<open>
  \<^verbatim>\<open>
  def without_empty_routes(sol):
      return [n[0] for n in groupby(sol)]

  def sol2routes(sol):
      if not sol or len(sol)<=2: return []
      return [[0]+list(r)+[0] for x, r in groupby(sol, lambda z: z == 0) if not x]
  \<close>
\<close>

definition without_empty_routes :: "int list \<Rightarrow> int list" where
  "without_empty_routes sol = map fst (groupby (\<lambda>z. z) sol)"

definition sol2routes :: "int list \<Rightarrow> int list list" where
  "sol2routes sol =
     (if sol = [] \<or> length sol \<le> 2 then []
      else map (\<lambda>(x, r). [0] @ r @ [0])
             (filter (\<lambda>(x, r). \<not> x) (groupby (\<lambda>z. z = 0) sol)))"

subsection \<open>sol2edgeset\<close>

text \<open>
  \<^verbatim>\<open>
  def sol2edgeset(sol, symmetric=True):
      """Converts solution to a set of edges (2-tuples). If the problem is
      symmetric the tuples are directed from smaller to larger node value to
      avoid duplicates."""
      edges = set()
      for i in range(0,len(sol)-1):
          j = i+1
          if symmetric or sol[i]<sol[j]:
              edges.add( (sol[i], sol[j]) )
          else:
              edges.add( (sol[j], sol[i]) )
      return edges
  \<close>
  The loop body is \<open>sol2edgeset_step\<close>; the indices stay below \<open>length sol\<close>, and
  \<open>range(0, len(sol)-1)\<close> is empty for the empty sequence, as \<open>[0..<length sol - 1]\<close> is.
\<close>

definition sol2edgeset_step :: "int list \<Rightarrow> bool \<Rightarrow> nat \<Rightarrow> (int \<times> int) set \<Rightarrow> (int \<times> int) set" where
  "sol2edgeset_step sol symmetric i edges =
     (let j = i + 1 in
      if symmetric \<or> sol ! i < sol ! j then insert (sol ! i, sol ! j) edges
      else insert (sol ! j, sol ! i) edges)"

definition sol2edgeset :: "int list \<Rightarrow> bool \<Rightarrow> (int \<times> int) set" where
  "sol2edgeset sol symmetric = fold (sol2edgeset_step sol symmetric) [0..<length sol - 1] {}"

subsection \<open>routes2sol\<close>

text \<open>
  \<^verbatim>\<open>
  def routes2sol(routes):
      if not routes:
          return None
      sol = [0]
      for r in routes:
          if r:
              if r[0]==0:
                  sol += r[1:]
              else:
                  sol += r
              if sol[-1]!=0:
                  sol += [0]
      return sol
  \<close>
  \<open>routes2sol_step\<close> is one pass of the loop body. \<open>r[0]\<close> is read for a non-empty
  \<open>r\<close> only, and \<open>sol[-1]\<close> for a \<open>sol\<close> that holds the leading depot at least.
\<close>

definition routes2sol_step :: "int list \<Rightarrow> int list \<Rightarrow> int list" where
  "routes2sol_step r sol =
     (if r \<noteq> [] then
        (let sol' = (if hd r = 0 then sol @ tl r else sol @ r)
         in if last sol' \<noteq> 0 then sol' @ [0] else sol')
      else sol)"

definition routes2sol :: "int list list \<Rightarrow> int list option" where
  "routes2sol routes = (if routes = [] then None else Some (fold routes2sol_step routes [0]))"

subsection \<open>objf\<close>

text \<open>
  \<^verbatim>\<open>
  def objf(sol, D):
      return sum(( D[sol[i-1],sol[i]] for i in range(1,len(sol))))
  \<close>
  The type of the distance table is not fixed by the module: \<open>objf\<close> only reads it at a
  pair of node ids. The table is therefore a parameter, given by its lookup, which may
  raise (an index outside the table). \<open>py_sum\<close> is the builtin \<open>sum\<close> over a generator:
  it adds the items from the left, starting from zero, and the first item that raises
  ends the sum with that exception. Nothing is assumed of the addition: the numbers of
  the table may be integers, which add exactly, or floats, which round each partial sum.
\<close>

type_synonym 'a table = "int \<Rightarrow> int \<Rightarrow> error + 'a"

fun sum_from :: "'a::{zero,plus} \<Rightarrow> (error + 'a) list \<Rightarrow> error + 'a" where
  "sum_from acc [] = Inr acc"
| "sum_from acc (Inl e # items) = Inl e"
| "sum_from acc (Inr v # items) = sum_from (acc + v) items"

definition py_sum :: "(error + 'a::{zero,plus}) list \<Rightarrow> error + 'a" where
  "py_sum items = sum_from 0 items"

definition objf :: "int list \<Rightarrow> 'a::{zero,plus} table \<Rightarrow> error + 'a" where
  "objf sol D = py_sum (map (\<lambda>i. D (sol ! (i - 1)) (sol ! i)) [1..<length sol])"

text \<open>
  Distance tables usually hold IEEE 754 doubles. The sum of two doubles is the exact sum
  rounded to the nearest number with a significand of 53 bits, a tie going to the even
  significand. For doubles that hold integers (below the overflow threshold) this is
  \<open>round53\<close> of the integer sum: \<open>spacing a\<close> is the distance between neighbouring
  doubles at the magnitude \<open>a\<close>, one below \<open>2 ^ 53 = 9007199254740992\<close> and doubling
  with every further bit. \<open>f64\<close> wraps such a value, and its addition is the rounded one.
\<close>

function spacing :: "nat \<Rightarrow> nat" where
  "spacing a = (if a < 9007199254740992 then 1 else 2 * spacing (a div 2))"
  by pat_completeness auto
termination
  by (relation "measure (\<lambda>a. a)") auto

declare spacing.simps [simp del]

definition round53 :: "int \<Rightarrow> int" where
  "round53 n =
     (let a = nat \<bar>n\<bar>; q = spacing a; m = a div q; r = a mod q;
          k = (if 2 * r < q \<or> (2 * r = q \<and> even m) then m else m + 1)
      in sgn n * int (k * q))"

datatype f64 = F64 int

instantiation f64 :: "{zero, plus}"
begin

definition zero_f64 :: f64 where
  "zero_f64 = F64 0"

fun plus_f64 :: "f64 \<Rightarrow> f64 \<Rightarrow> f64" where
  "plus_f64 (F64 x) (F64 y) = F64 (round53 (x + y))"

instance ..

end

text \<open>
  A table stored as a list of rows, read the way a two-dimensional array is: a negative
  index counts from the end, an index outside the table raises \<open>IndexError\<close>.
\<close>

definition array_index :: "nat \<Rightarrow> int \<Rightarrow> error + nat" where
  "array_index n i =
     (let j = (if i < 0 then int n + i else i)
      in if 0 \<le> j \<and> j < int n then Inr (nat j) else Inl IndexError)"

definition table_of_rows :: "'a list list \<Rightarrow> 'a table" where
  "table_of_rows rows a b =
     (case array_index (length rows) a of
        Inl e \<Rightarrow> Inl e
      | Inr i \<Rightarrow> (case array_index (length (rows ! i)) b of
                    Inl e \<Rightarrow> Inl e
                  | Inr j \<Rightarrow> Inr (rows ! i ! j)))"

subsection \<open>produce_nn_list\<close>

text \<open>
  \<^verbatim>\<open>
  def produce_nn_list(D):
      n = len(D)
      NN_D = [None]*n
      for i in range(n):
          NN_D[i] = sorted(enumerate(D[i,:]), key=itemgetter(1))
      return NN_D
  \<close>
  The two-index read \<open>D[i,:]\<close> is that of an array, given here by its rows. Rows of one
  common length make a two-dimensional array, of which \<open>len(D)\<close> is the number of rows
  and \<open>D[i,:]\<close> is row \<open>i\<close>. Rows of different lengths do not: they make a
  one-dimensional array of row objects, on which a read with two indices raises
  \<open>IndexError\<close> (\<open>getrow\<close>). The loop stops at the first read that raises.
  \<open>sorted\<close> is stable, as \<open>sort_key\<close> is, and the two agree on keys that are linearly
  ordered; a float table holding NaN, which compares false with every number, is outside
  this model.
\<close>

definition rectangular :: "'a list list \<Rightarrow> bool" where
  "rectangular D = list_all (\<lambda>row. length row = length (hd D)) D"

definition getrow :: "'a list list \<Rightarrow> nat \<Rightarrow> error + 'a list" where
  "getrow D i = (if rectangular D \<and> i < length D then Inr (D ! i) else Inl IndexError)"

definition produce_nn_list_step ::
  "'a::linorder list list \<Rightarrow> nat \<Rightarrow> error + (nat \<times> 'a) list option list
     \<Rightarrow> error + (nat \<times> 'a) list option list" where
  "produce_nn_list_step D i acc =
     (case acc of
        Inl e \<Rightarrow> Inl e
      | Inr NN_D \<Rightarrow>
          (case getrow D i of
             Inl e \<Rightarrow> Inl e
           | Inr row \<Rightarrow> Inr (NN_D[i := Some (sort_key snd (enumerate 0 row))])))"

definition produce_nn_list ::
  "'a::linorder list list \<Rightarrow> error + (nat \<times> 'a) list option list" where
  "produce_nn_list D =
     (let n = length D in
      fold (produce_nn_list_step D) [0..<n] (Inr (replicate n None)))"

definition square :: "'a list list \<Rightarrow> bool" where
  "square D = list_all (\<lambda>row. length row = length D) D"

subsection \<open>OrderedDictSet\<close>

text \<open>
  \<^verbatim>\<open>
  class OrderedDictSet:
      def __init__(self, collection):
          ...
          self.ods = _ordered_dict_from_keys(collection, None)
          self.keylist = None
      def remove(self, element):
          del self.ods[element]
          self.keylist = None # needs update
      def add(self, element):
          self.ods[element] = None
          if self.keylist:
              self.keylist.append(element) # avoid full update
      def difference_update(self, collection):
          for element in collection:
              self.ods.pop(element, None)
          self.keylist = None # needs update
      def __getitem__(self, index):
          if self.keylist is None:
              self.keylist = list(self.ods.keys())
          return self.keylist[index]
      def __iter__(self):
          return iter(self.ods.keys())
      def __len__(self):
          return len(self.ods)
  \<close>
  An insertion-ordered dictionary (\<open>dict\<close> from Python 3.7 on, \<open>OrderedDict\<close> before)
  is an association list in insertion order: storing under a key that is present
  replaces the value in place, storing under a new key appends the entry
  (\<open>AList.update\<close>); \<open>del\<close> and \<open>pop\<close> take the entry out (\<open>AList.delete\<close>), and \<open>del\<close>
  of a key that is absent raises \<open>KeyError\<close>. Every value stored here is \<open>None\<close>, the one
  value of \<open>unit\<close>.
\<close>

record 'a OrderedDictSet =
  ods :: "('a \<times> unit) list"
  keylist :: "'a list option"

definition fromkeys :: "'a list \<Rightarrow> 'v \<Rightarrow> ('a \<times> 'v) list" where
  "fromkeys collection v = fold (\<lambda>k d. AList.update k v d) collection []"

definition OrderedDictSet_init :: "'a list \<Rightarrow> 'a OrderedDictSet" where
  "OrderedDictSet_init collection = \<lparr>ods = fromkeys collection (), keylist = None\<rparr>"


definition OrderedDictSet_add :: "'a \<Rightarrow> 'a OrderedDictSet \<Rightarrow> 'a OrderedDictSet" where
  "OrderedDictSet_add element s =
     (let s' = s\<lparr>ods := AList.update element () (ods s)\<rparr> in
      case keylist s' of
        None \<Rightarrow> s'
      | Some kl \<Rightarrow> if kl \<noteq> [] then s'\<lparr>keylist := Some (kl @ [element])\<rparr> else s')"

definition OrderedDictSet_difference_update :: "'a list \<Rightarrow> 'a OrderedDictSet \<Rightarrow> 'a OrderedDictSet" where
  "OrderedDictSet_difference_update collection s =
     s\<lparr>ods := fold (\<lambda>element d. AList.delete element d) collection (ods s), keylist := None\<rparr>"

definition OrderedDictSet_getitem ::
  "int \<Rightarrow> 'a OrderedDictSet \<Rightarrow> (error + 'a) \<times> 'a OrderedDictSet" where
  "OrderedDictSet_getitem index s =
     (let kl = (case keylist s of None \<Rightarrow> map fst (ods s) | Some kl \<Rightarrow> kl);
          s' = s\<lparr>keylist := Some kl\<rparr>
      in (case array_index (length kl) index of
            Inl e \<Rightarrow> Inl e
          | Inr j \<Rightarrow> Inr (kl ! j), s'))"

definition OrderedDictSet_iter :: "'a OrderedDictSet \<Rightarrow> 'a list" where
  "OrderedDictSet_iter s = map fst (ods s)"

definition OrderedDictSet_len :: "'a OrderedDictSet \<Rightarrow> nat" where
  "OrderedDictSet_len s = length (ods s)"



subsection \<open>Well-formed solutions\<close>

text \<open>
  A solution is depot-bounded when it starts and ends with the depot; a route or a
  solution has a customer when some node of it is not the depot. Consecutive duplicates
  are excluded with \<open>distinct_adj\<close>. \<open>routes_of\<close> is the comprehension of \<open>sol2routes\<close>
  without its length guard, and \<open>adjacent_pairs\<close> lists the pairs \<open>(sol[i-1], sol[i])\<close>
  that \<open>objf\<close> looks up: both serve the proofs only.
\<close>

definition depot_bounded :: "int list \<Rightarrow> bool" where
  "depot_bounded sol = (sol \<noteq> [] \<and> hd sol = 0 \<and> last sol = 0)"

definition has_customer :: "int list \<Rightarrow> bool" where
  "has_customer r = list_ex (\<lambda>n. n \<noteq> 0) r"

definition routes_of :: "int list \<Rightarrow> int list list" where
  "routes_of sol = map (\<lambda>(x, r). [0] @ r @ [0])
             (filter (\<lambda>(x, r). \<not> x) (groupby (\<lambda>z. z = 0) sol))"

definition adjacent_pairs :: "'a list \<Rightarrow> ('a \<times> 'a) list" where
  "adjacent_pairs xs = zip xs (tl xs)"

subsection \<open>The ordered-set invariant, in the words of the specification\<close>



fun first_occurrences :: "'a list \<Rightarrow> 'a list" where
  "first_occurrences [] = []"
| "first_occurrences (x # xs) = x # removeAll x (first_occurrences xs)"




section \<open>Properties\<close>

subsection \<open>The comparator\<close>

text \<open>
  Claim C4. For all inputs of \<open>is_better_sol\<close>: when the candidate's objective value or
  vehicle count is \<open>None\<close> the result is \<open>False\<close>; otherwise, when the incumbent's
  objective value or vehicle count is \<open>None\<close> the result is \<open>True\<close>; otherwise, with
  \<open>minimize_K\<close> set, the result is \<open>True\<close> exactly when the candidate's vehicle count is
  strictly lower, or equal with a strictly lower objective value; and with \<open>minimize_K\<close>
  unset, exactly when the candidate's objective value is strictly lower, whatever the
  vehicle counts are.
\<close>

theorem is_better_sol_contract:
  fixes best_f sol_f :: "'f::linorder option" and bf sf :: 'f
  shows
  "(sol_f = None \<or> sol_K = None \<longrightarrow>
      \<not> is_better_sol best_f best_K sol_f sol_K minimize_K) \<and>
   (sol_f \<noteq> None \<and> sol_K \<noteq> None \<and> (best_f = None \<or> best_K = None) \<longrightarrow>
      is_better_sol best_f best_K sol_f sol_K minimize_K) \<and>
   (is_better_sol (Some bf) (Some bk) (Some sf) (Some sk) True \<longleftrightarrow>
      sk < bk \<or> (sk = bk \<and> sf < bf)) \<and>
   (is_better_sol (Some bf) (Some bk) (Some sf) (Some sk) False \<longleftrightarrow> sf < bf)"
  by (simp add: is_better_sol_def)

theorem is_better_sol_contract_witness:
  "\<not> is_better_sol (Some (100::int)) (Some 3) None (Some 2) True \<and>
   is_better_sol None (Some 3) (Some (150::int)) (Some 2) False \<and>
   is_better_sol (Some (100::int)) (Some 3) (Some 150) (Some 2) True \<and>
   \<not> is_better_sol (Some (100::int)) (Some 3) (Some 150) (Some 2) False"
  using is_better_sol_contract [where sol_f = None and sol_K = "Some 2"
      and best_f = "Some (100::int)" and best_K = "Some 3" and minimize_K = True
      and bf = 100 and bk = 3 and sf = 150 and sk = 2]
    is_better_sol_contract [where sol_f = "Some (150::int)" and sol_K = "Some 2"
      and best_f = None and best_K = "Some 3" and minimize_K = False
      and bf = 100 and bk = 3 and sf = 150 and sk = 2]
  by simp

subsection \<open>The comparison of edges\<close>

text \<open>
  Claim C1. For every sequence \<open>sol\<close>, \<open>sol2edgeset sol True\<close> (symmetric mode) should
  hold, for each adjacent pair \<open>(a, b)\<close> with \<open>a > b\<close>, the pair \<open>(b, a)\<close> rather than
  \<open>(a, b)\<close>, and \<open>sol2edgeset sol False\<close> should hold each adjacent pair in the direction
  of the sequence. The function's own docstring says the same of the symmetric mode. The
  code does the opposite, since its test is \<open>symmetric or sol[i]<sol[j]\<close>: on the
  sequence \<open>[2, 1]\<close> the symmetric mode keeps \<open>(2, 1)\<close> and the asymmetric mode turns it
  into \<open>(1, 2)\<close>.
\<close>

theorem sol2edgeset_modes_swapped:
  "sol2edgeset [2, 1] True = {(2, 1)} \<and> sol2edgeset [2, 1] False = {(1, 2)}"
  by (simp add: sol2edgeset_def sol2edgeset_step_def)

subsection \<open>Decomposition into routes\<close>

text \<open>
  Claim C2. \<open>sol2routes\<close> should collapse every run of consecutive equal values, not only
  runs of depot markers, as its docstring warns. The code groups by the key \<open>z == 0\<close> and
  copies each run of customers whole, so a repeated customer stays: \<open>[0, 1, 1, 0]\<close> gives
  the route \<open>[0, 1, 1, 0]\<close>. The collapsing is done by \<open>without_empty_routes\<close>, which
  groups by the value itself.
\<close>

theorem sol2routes_keeps_repeated_customer:
  "sol2routes [0, 1, 1, 0] = [[0, 1, 1, 0]] \<and> without_empty_routes [0, 1, 1, 0] = [0, 1, 0]"
  by (simp add: sol2routes_def without_empty_routes_def)

text \<open>
  Claim C9. For every input sequence, also one that does not start or end with the
  depot, every route returned by \<open>sol2routes\<close> begins with \<open>0\<close> and ends with \<open>0\<close>, and
  a sequence of length at most two gives the empty route list.
\<close>

theorem sol2routes_depot_wrapped:
  "(\<forall>r\<in>set (sol2routes sol). r \<noteq> [] \<and> hd r = 0 \<and> last r = 0) \<and>
   (length sol \<le> 2 \<longrightarrow> sol2routes sol = [])"
  by (auto simp: sol2routes_def)

theorem sol2routes_depot_wrapped_witness:
  "sol2routes [3, 5, 0, 2] = [[0, 3, 5, 0], [0, 2, 0]] \<and>
   hd [0, 3, 5, 0::int] = 0 \<and> last [0, 3, 5, 0::int] = 0 \<and>
   hd [0, 2, 0::int] = 0 \<and> last [0, 2, 0::int] = 0 \<and>
   length [3, 5::int] \<le> 2 \<and> sol2routes [3, 5] = []"
  using sol2routes_depot_wrapped [of "[3, 5, 0, 2]"] sol2routes_depot_wrapped [of "[3, 5]"]
  by (simp add: sol2routes_def)

subsection \<open>Assembly of routes\<close>

lemma routes2sol_step_inv:
  "sol \<noteq> [] \<Longrightarrow> hd sol = 0 \<Longrightarrow> last sol = 0 \<Longrightarrow>
   routes2sol_step r sol \<noteq> [] \<and> hd (routes2sol_step r sol) = 0 \<and>
   last (routes2sol_step r sol) = 0"
  by (simp add: routes2sol_step_def Let_def)

lemma fold_routes2sol_step_inv:
  "sol \<noteq> [] \<Longrightarrow> hd sol = 0 \<Longrightarrow> last sol = 0 \<Longrightarrow>
   fold routes2sol_step routes sol \<noteq> [] \<and> hd (fold routes2sol_step routes sol) = 0 \<and>
   last (fold routes2sol_step routes sol) = 0"
proof (induction routes arbitrary: sol)
  case Nil
  then show ?case by simp
next
  case (Cons r routes)
  from routes2sol_step_inv [OF Cons.prems, of r] show ?case
    by (simp add: Cons.IH)
qed

text \<open>
  Claim C8. \<open>routes2sol\<close> of the empty route list is \<open>None\<close>, not an empty sequence; for
  every non-empty route list it returns a sequence that starts with the depot \<open>0\<close>, and
  that ends with \<open>0\<close> whenever at least one non-empty route was supplied.
\<close>

theorem routes2sol_result:
  "routes2sol [] = None \<and>
   (routes \<noteq> [] \<longrightarrow>
      (\<exists>sol. routes2sol routes = Some sol \<and> sol \<noteq> [] \<and> hd sol = 0 \<and>
         ((\<exists>r\<in>set routes. r \<noteq> []) \<longrightarrow> last sol = 0)))"
  using fold_routes2sol_step_inv [of "[0]" routes]
  by (simp add: routes2sol_def)

theorem routes2sol_result_witness:
  "[[0, 3, 5, 0], [0, 2, 0]] \<noteq> [] \<and> (\<exists>r\<in>set [[0, 3, 5, 0], [0, 2, 0::int]]. r \<noteq> []) \<and>
   routes2sol [[0, 3, 5, 0], [0, 2, 0]] = Some [0, 3, 5, 0, 2, 0] \<and>
   hd [0, 3, 5, 0, 2, 0::int] = 0 \<and> last [0, 3, 5, 0, 2, 0::int] = 0"
  using routes2sol_result [of "[[0, 3, 5, 0], [0, 2, 0]]"]
  by (simp add: routes2sol_def routes2sol_step_def)

subsection \<open>The neighbour index\<close>

lemma fold_produce_nn_list_step:
  assumes "rectangular D"
  shows "k \<le> length D \<Longrightarrow> length xs = length D \<Longrightarrow>
         fold (produce_nn_list_step D) [0..<k] (Inr xs)
         = Inr (map (\<lambda>i. Some (sort_key snd (enumerate 0 (D ! i)))) [0..<k] @ drop k xs)"
proof (induction k)
  case 0
  then show ?case by simp
next
  case (Suc k)
  then have k: "k < length xs" "k < length D" by simp_all
  then have "drop k xs = xs ! k # drop (Suc k) xs"
    by (simp add: Cons_nth_drop_Suc)
  with Suc k assms show ?case
    by (simp add: produce_nn_list_step_def getrow_def list_update_append)
qed

lemma produce_nn_list_map:
  assumes "rectangular D"
  shows "produce_nn_list D = Inr (map (\<lambda>row. Some (sort_key snd (enumerate 0 row))) D)"
proof -
  have "fold (produce_nn_list_step D) [0..<length D] (Inr (replicate (length D) None))
        = Inr (map (\<lambda>i. Some (sort_key snd (enumerate 0 (D ! i)))) [0..<length D])"
    using fold_produce_nn_list_step [OF assms, of "length D" "replicate (length D) None"]
    by simp
  also have "map (\<lambda>i. Some (sort_key snd (enumerate 0 (D ! i)))) [0..<length D]
             = map (\<lambda>row. Some (sort_key snd (enumerate 0 row))) D"
    by (rule nth_equalityI) simp_all
  finally show ?thesis
    by (simp add: produce_nn_list_def)
qed

lemma produce_nn_list_ragged: "produce_nn_list [[1, 2], [3::int]] = Inl IndexError"
  by (simp add: produce_nn_list_def produce_nn_list_step_def getrow_def rectangular_def
      upt_rec)

text \<open>
  Claim C3 says that \<open>produce_nn_list\<close> fails with \<open>InvalidInput\<close> whenever the table is
  not square. The function makes no such check: on the array of two rows and three
  columns below it returns the sorted rows.
\<close>

theorem produce_nn_list_not_square_counterexample:
  "\<not> square [[1, 2, 3], [6, 5, 4::int]] \<and>
   produce_nn_list [[1, 2, 3], [6, 5, 4::int]] \<noteq> Inl InvalidInput \<and>
   produce_nn_list [[1, 2, 3], [6, 5, 4::int]]
     = Inr [Some [(0, 1), (1, 2), (2, 3)], Some [(2, 4), (1, 5), (0, 6)]]"
  by (simp add: square_def produce_nn_list_def produce_nn_list_step_def getrow_def
      rectangular_def enumerate_eq_zip upt_rec)

text \<open>
  Claim C3, as amended. \<open>produce_nn_list\<close> does not check that the table is square: for
  every two-dimensional table of linearly ordered distances (rows of one common length,
  no NaN), square or not, it returns normally; the result has one entry per row, and
  entry \<open>i\<close> holds the pairs (column index, distance) of row \<open>i\<close>, all of them, in
  ascending order of distance.
\<close>

theorem produce_nn_list_returns:
  "rectangular D \<Longrightarrow>
   \<exists>NN_D. produce_nn_list D = Inr NN_D \<and> length NN_D = length D \<and>
     (\<forall>i<length D. \<exists>row. NN_D ! i = Some row \<and> sorted (map snd row) \<and>
        mset row = mset (enumerate 0 (D ! i)))"
  by (simp add: produce_nn_list_map)

theorem produce_nn_list_returns_witness:
  "rectangular [[1, 2, 3], [6, 5, 4::int]] \<and>
   produce_nn_list [[1, 2, 3], [6, 5, 4::int]]
     = Inr [Some [(0, 1), (1, 2), (2, 3)], Some [(2, 4), (1, 5), (0, 6)]]"
  using produce_nn_list_returns [of "[[1, 2, 3], [6, 5, 4::int]]"]
  by (simp add: produce_nn_list_def produce_nn_list_step_def getrow_def
      rectangular_def enumerate_eq_zip upt_rec)

subsection \<open>The ordered set\<close>

lemma length_update_present:
  "k \<in> fst ` set al \<Longrightarrow> length (AList.update k v al) = length al"
  by (induction al) auto

text \<open>
  Claim C10. For every \<open>OrderedDictSet\<close>, \<open>add\<close> of an element that is already present
  leaves the iteration order and the length as they were: the element keeps its place
  and is not iterated twice.
\<close>

theorem add_present_unchanged:
  "element \<in> set (OrderedDictSet_iter s) \<Longrightarrow>
   OrderedDictSet_iter (OrderedDictSet_add element s) = OrderedDictSet_iter s \<and>
   OrderedDictSet_len (OrderedDictSet_add element s) = OrderedDictSet_len s"
  by (auto simp: OrderedDictSet_iter_def OrderedDictSet_len_def OrderedDictSet_add_def
      Let_def update_keys length_update_present split: option.splits)

theorem add_present_unchanged_witness:
  "(1::int) \<in> set (OrderedDictSet_iter (OrderedDictSet_init [1, 2])) \<and>
   OrderedDictSet_iter (OrderedDictSet_add 1 (OrderedDictSet_init [1, 2::int])) = [1, 2] \<and>
   OrderedDictSet_iter (OrderedDictSet_init [1, 2::int]) = [1, 2] \<and>
   OrderedDictSet_len (OrderedDictSet_add 1 (OrderedDictSet_init [1, 2::int])) = 2"
  using add_present_unchanged [of 1 "OrderedDictSet_init [1, 2::int]"]
  by (simp add: OrderedDictSet_iter_def OrderedDictSet_len_def OrderedDictSet_add_def
      OrderedDictSet_init_def fromkeys_def)

subsection \<open>Round trip and additivity\<close>

lemma routes_of_single: "routes_of [0] = []"
  by (simp add: routes_of_def)

lemma routes_of_route:
  assumes "seg \<noteq> []" "0 \<notin> set seg"
  shows "routes_of (0 # seg @ 0 # rest) = (0 # seg @ [0]) # routes_of (0 # rest)"
proof -
  obtain y ys where seg: "seg = y # ys" using assms(1) by (cases seg) auto
  with assms(2) have y: "y \<noteq> 0" and ys: "0 \<notin> set ys" by auto
  have tw: "takeWhile (\<lambda>z. z \<noteq> 0) (ys @ 0 # rest) = ys"
    using ys by (induction ys) auto
  have dw: "dropWhile (\<lambda>z. z \<noteq> 0) (ys @ 0 # rest) = 0 # rest"
    using ys by (induction ys) auto
  show ?thesis
    using y by (simp add: routes_of_def seg tw dw)
qed

lemma depot_bounded_cases:
  assumes "depot_bounded xs" "distinct_adj xs"
  shows "xs = [0] \<or> (\<exists>seg rest. xs = 0 # seg @ 0 # rest \<and> seg \<noteq> [] \<and> 0 \<notin> set seg \<and>
           distinct_adj seg \<and> depot_bounded (0 # rest) \<and> distinct_adj (0 # rest))"
proof (cases "tl xs = []")
  case True
  with assms(1) show ?thesis
    by (cases xs) (auto simp: depot_bounded_def)
next
  case False
  from assms(1) obtain ys where xs: "xs = 0 # ys"
    by (cases xs) (auto simp: depot_bounded_def)
  with False have ys: "ys \<noteq> []" by simp
  with assms(1) xs have last_ys: "last ys = 0"
    by (simp add: depot_bounded_def)
  define seg where "seg = takeWhile (\<lambda>z. z \<noteq> 0) ys"
  define rest' where "rest' = dropWhile (\<lambda>z. z \<noteq> 0) ys"
  have split: "ys = seg @ rest'"
    by (simp add: seg_def rest'_def)
  have "0 \<in> set ys"
    using ys last_ys last_in_set by metis
  then have "rest' \<noteq> []"
    by (auto simp: rest'_def dropWhile_eq_Nil_conv)
  then have "hd rest' = 0"
    unfolding rest'_def using hd_dropWhile [of "\<lambda>z. z \<noteq> 0" ys] by simp
  with \<open>rest' \<noteq> []\<close> obtain rest where rest: "rest' = 0 # rest"
    by (cases rest') auto
  have seg0: "0 \<notin> set seg"
    by (auto simp: seg_def dest: set_takeWhileD)
  have "hd ys \<noteq> 0"
    using assms(2) xs ys by (cases ys) auto
  then have segne: "seg \<noteq> []"
    using ys by (cases ys) (auto simp: seg_def)
  have da: "distinct_adj (seg @ 0 # rest)"
    using assms(2) xs split rest by (simp add: distinct_adj_Cons)
  then have "distinct_adj seg" "distinct_adj (0 # rest)"
    by (auto simp: distinct_adj_append_iff)
  moreover have "depot_bounded (0 # rest)"
    using last_ys split rest by (auto simp: depot_bounded_def split: if_splits)
  ultimately show ?thesis
    using xs split rest seg0 segne by auto
qed

lemma depot_bounded_induct [consumes 2, case_names depot route]:
  assumes "depot_bounded xs" "distinct_adj xs"
    and "P [0]"
    and "\<And>seg rest. seg \<noteq> [] \<Longrightarrow> 0 \<notin> set seg \<Longrightarrow> distinct_adj seg \<Longrightarrow>
           depot_bounded (0 # rest) \<Longrightarrow> distinct_adj (0 # rest) \<Longrightarrow> P (0 # rest)
           \<Longrightarrow> P (0 # seg @ 0 # rest)"
  shows "P xs"
  using assms(1,2)
proof (induction xs rule: length_induct)
  case (1 xs)
  from depot_bounded_cases [OF "1.prems"] show ?case
  proof
    assume "xs = [0]"
    with assms(3) show ?thesis by simp
  next
    assume "\<exists>seg rest. xs = 0 # seg @ 0 # rest \<and> seg \<noteq> [] \<and> 0 \<notin> set seg \<and>
           distinct_adj seg \<and> depot_bounded (0 # rest) \<and> distinct_adj (0 # rest)"
    then obtain seg rest where *: "xs = 0 # seg @ 0 # rest" "seg \<noteq> []" "0 \<notin> set seg"
      "distinct_adj seg" "depot_bounded (0 # rest)" "distinct_adj (0 # rest)"
      by blast
    then have "length (0 # rest) < length xs" by simp
    with "1.IH" * have "P (0 # rest)" by blast
    with * assms(4) show ?thesis by blast
  qed
qed

lemma sol2routes_routes_of:
  assumes "depot_bounded xs" "distinct_adj xs"
  shows "sol2routes xs = routes_of xs"
  using depot_bounded_cases [OF assms]
  by (auto simp: sol2routes_def routes_of_def)

lemma fold_routes_of:
  assumes "depot_bounded xs" "distinct_adj xs"
  shows "acc \<noteq> [] \<Longrightarrow> last acc = 0 \<Longrightarrow> fold routes2sol_step (routes_of xs) acc = acc @ tl xs"
  using assms
proof (induction xs arbitrary: acc rule: depot_bounded_induct)
  case depot
  then show ?case by (simp add: routes_of_single)
next
  case (route seg rest)
  have step: "routes2sol_step (0 # seg @ [0]) acc = acc @ seg @ [0]"
    by (simp add: routes2sol_step_def)
  have "fold routes2sol_step (routes_of (0 # rest)) (acc @ seg @ [0]) = (acc @ seg @ [0]) @ tl (0 # rest)"
    by (rule route.IH) simp_all
  then show ?case
    using route.hyps by (simp add: routes_of_route step)
qed

lemma routes_of_has_customer:
  assumes "depot_bounded xs" "distinct_adj xs" "has_customer xs"
  shows "routes_of xs \<noteq> []"
  using depot_bounded_cases [OF assms(1,2)] assms(3)
  by (auto simp: routes_of_route has_customer_def)

lemma roundtrip_sol:
  assumes "depot_bounded s" "distinct_adj s" "has_customer s"
  shows "routes2sol (sol2routes s) = Some s"
proof -
  have "fold routes2sol_step (routes_of s) [0] = [0] @ tl s"
    by (rule fold_routes_of [OF assms(1,2)]) simp_all
  also have "\<dots> = s"
    using assms(1) by (cases s) (auto simp: depot_bounded_def)
  finally show ?thesis
    using routes_of_has_customer [OF assms]
    by (simp add: routes2sol_def sol2routes_routes_of [OF assms(1,2)])
qed

lemma routes2sol_step_wf:
  assumes "depot_bounded sol" "distinct_adj sol" "distinct_adj r"
  shows "depot_bounded (routes2sol_step r sol) \<and> distinct_adj (routes2sol_step r sol)"
proof (cases r)
  case Nil
  with assms show ?thesis by (simp add: routes2sol_step_def)
next
  case (Cons a as)
  with assms show ?thesis
    by (cases as)
       (auto simp: routes2sol_step_def depot_bounded_def Let_def distinct_adj_append_iff)
qed

lemma routes2sol_step_set:
  "0 \<in> set sol \<Longrightarrow> set (routes2sol_step r sol) = set sol \<union> set r"
  by (cases r) (auto simp: routes2sol_step_def Let_def)

lemma fold_routes2sol_step_wf:
  assumes "\<forall>r\<in>set routes. distinct_adj r"
  shows "depot_bounded sol \<Longrightarrow> distinct_adj sol \<Longrightarrow>
         depot_bounded (fold routes2sol_step routes sol) \<and>
         distinct_adj (fold routes2sol_step routes sol) \<and>
         set (fold routes2sol_step routes sol) = set sol \<union> \<Union> (set ` set routes)"
  using assms
proof (induction routes arbitrary: sol)
  case Nil
  then show ?case by simp
next
  case (Cons r routes)
  from Cons.prems have wf: "depot_bounded (routes2sol_step r sol)" "distinct_adj (routes2sol_step r sol)"
    using routes2sol_step_wf [of sol r] by simp_all
  from Cons.prems(1) have "0 \<in> set sol"
    by (cases sol) (auto simp: depot_bounded_def)
  then have "set (routes2sol_step r sol) = set sol \<union> set r"
    by (rule routes2sol_step_set)
  with Cons.IH [OF wf] Cons.prems(3) show ?case
    by auto
qed

text \<open>
  Claim C6. For every route list whose routes are all non-empty (each holds a customer,
  a route without customers being empty) and without consecutive duplicate nodes,
  decomposing the assembled solution with \<open>sol2routes\<close> and reassembling it with
  \<open>routes2sol\<close> gives the same depot-delimited sequence; equivalently,
  \<open>routes2sol (sol2routes s) = s\<close> for every depot-bounded solution \<open>s\<close> with at least
  one customer and no consecutive duplicates.
\<close>

theorem roundtrip:
  "(depot_bounded s \<and> distinct_adj s \<and> has_customer s \<longrightarrow>
      routes2sol (sol2routes s) = Some s) \<and>
   (routes \<noteq> [] \<and> (\<forall>r\<in>set routes. has_customer r \<and> distinct_adj r) \<longrightarrow>
      (\<exists>sol. routes2sol routes = Some sol \<and> routes2sol (sol2routes sol) = Some sol))"
proof (intro conjI impI)
  assume "depot_bounded s \<and> distinct_adj s \<and> has_customer s"
  then show "routes2sol (sol2routes s) = Some s"
    by (simp add: roundtrip_sol)
next
  assume a: "routes \<noteq> [] \<and> (\<forall>r\<in>set routes. has_customer r \<and> distinct_adj r)"
  let ?sol = "fold routes2sol_step routes [0]"
  from a have da: "\<forall>r\<in>set routes. distinct_adj r" by simp
  have wf: "depot_bounded ?sol" "distinct_adj ?sol"
    "set ?sol = set [0] \<union> \<Union> (set ` set routes)"
    using fold_routes2sol_step_wf [OF da, of "[0]"] by (simp_all add: depot_bounded_def)
  from a obtain r where "r \<in> set routes" "has_customer r"
    by (cases routes) auto
  then have "has_customer ?sol"
    using wf(3) by (auto simp: has_customer_def list_ex_iff)
  with wf have "routes2sol (sol2routes ?sol) = Some ?sol"
    by (simp add: roundtrip_sol)
  with a show "\<exists>sol. routes2sol routes = Some sol \<and> routes2sol (sol2routes sol) = Some sol"
    by (simp add: routes2sol_def)
qed

theorem roundtrip_witness:
  "depot_bounded [0, 3, 5, 0, 2, 0] \<and> distinct_adj [0, 3, 5, 0, 2, 0::int] \<and>
   has_customer [0, 3, 5, 0, 2, 0] \<and>
   sol2routes [0, 3, 5, 0, 2, 0] = [[0, 3, 5, 0], [0, 2, 0]] \<and>
   routes2sol [[0, 3, 5, 0], [0, 2, 0]] = Some [0, 3, 5, 0, 2, 0] \<and>
   has_customer [0, 3, 5, 0] \<and> distinct_adj [0, 3, 5, 0::int] \<and>
   has_customer [0, 2, 0] \<and> distinct_adj [0, 2, 0::int] \<and>
   routes2sol (sol2routes [0, 3, 5, 0, 2, 0]) = Some [0, 3, 5, 0, 2, 0]"
  using roundtrip [of "[0, 3, 5, 0, 2, 0]" "[[0, 3, 5, 0], [0, 2, 0]]"]
  by (simp add: depot_bounded_def has_customer_def sol2routes_def routes2sol_def
      routes2sol_step_def)

lemma objf_adjacent_pairs:
  "objf sol D = py_sum (map (\<lambda>(a, b). D a b) (adjacent_pairs sol))"
proof -
  have "map (\<lambda>i. D (sol ! (i - 1)) (sol ! i)) [1..<length sol]
        = map (\<lambda>(a, b). D a b) (adjacent_pairs sol)"
    by (rule nth_equalityI) (auto simp: adjacent_pairs_def nth_tl)
  then show ?thesis
    by (simp add: objf_def)
qed

lemma adjacent_pairs_join:
  "adjacent_pairs (as @ z # bs) = adjacent_pairs (as @ [z]) @ adjacent_pairs (z # bs)"
proof (induction as)
  case Nil
  then show ?case by (simp add: adjacent_pairs_def)
next
  case (Cons a as)
  then show ?case
    by (cases as) (simp_all add: adjacent_pairs_def)
qed

lemma sum_from_acc:
  fixes acc :: "'a::monoid_add"
  shows "sum_from acc items = (case sum_from 0 items of Inl e \<Rightarrow> Inl e | Inr v \<Rightarrow> Inr (acc + v))"
proof (induction items arbitrary: acc)
  case Nil
  then show ?case by simp
next
  case (Cons item items)
  show ?case
  proof (cases item)
    case (Inl e)
    then show ?thesis by simp
  next
    case (Inr v)
    have a: "sum_from (acc + v) items
             = (case sum_from 0 items of Inl e \<Rightarrow> Inl e | Inr w \<Rightarrow> Inr (acc + v + w))"
      by (rule Cons.IH)
    have b: "sum_from v items
             = (case sum_from 0 items of Inl e \<Rightarrow> Inl e | Inr w \<Rightarrow> Inr (v + w))"
      by (rule Cons.IH)
    show ?thesis
      by (simp add: Inr a b add.assoc split: sum.splits)
  qed
qed

lemma sum_from_append:
  "sum_from acc (xs @ ys) = (case sum_from acc xs of Inl e \<Rightarrow> Inl e | Inr v \<Rightarrow> sum_from v ys)"
proof (induction xs arbitrary: acc)
  case Nil
  then show ?case by simp
next
  case (Cons x xs)
  then show ?case by (cases x) simp_all
qed

lemma py_sum_append:
  fixes xs ys :: "(error + 'a::monoid_add) list"
  shows "py_sum (xs @ ys)
   = (case py_sum xs of Inl e \<Rightarrow> Inl e
      | Inr v \<Rightarrow> (case py_sum ys of Inl e \<Rightarrow> Inl e | Inr w \<Rightarrow> Inr (v + w)))"
proof (cases "sum_from 0 xs")
  case (Inl e)
  then show ?thesis
    by (simp add: py_sum_def sum_from_append)
next
  case (Inr v)
  have "sum_from 0 (xs @ ys) = sum_from v ys"
    by (simp add: sum_from_append Inr)
  also have "\<dots> = (case sum_from 0 ys of Inl e \<Rightarrow> Inl e | Inr w \<Rightarrow> Inr (v + w))"
    by (rule sum_from_acc)
  finally show ?thesis
    by (simp add: py_sum_def Inr)
qed

lemma py_sum_Cons:
  fixes xs :: "(error + 'a::monoid_add) list"
  shows "py_sum (x # xs)
   = (case x of Inl e \<Rightarrow> Inl e
      | Inr v \<Rightarrow> (case py_sum xs of Inl e \<Rightarrow> Inl e | Inr w \<Rightarrow> Inr (v + w)))"
proof (cases x)
  case (Inl e)
  then show ?thesis by (simp add: py_sum_def)
next
  case (Inr v)
  have "sum_from 0 (x # xs) = sum_from v xs"
    by (simp add: Inr)
  also have "\<dots> = (case sum_from 0 xs of Inl e \<Rightarrow> Inl e | Inr w \<Rightarrow> Inr (v + w))"
    by (rule sum_from_acc)
  finally show ?thesis
    by (simp add: py_sum_def Inr)
qed

lemma objf_route_split:
  fixes D :: "'a::monoid_add table"
  shows "objf (0 # seg @ 0 # rest) D
   = (case objf (0 # seg @ [0]) D of Inl e \<Rightarrow> Inl e
      | Inr v \<Rightarrow> (case objf (0 # rest) D of Inl e \<Rightarrow> Inl e | Inr w \<Rightarrow> Inr (v + w)))"
proof -
  have "adjacent_pairs (0 # seg @ 0 # rest)
        = adjacent_pairs (0 # seg @ [0]) @ adjacent_pairs (0 # rest)"
    using adjacent_pairs_join [of "0 # seg" 0 rest] by simp
  then show ?thesis
    by (simp add: objf_adjacent_pairs py_sum_append split: sum.splits)
qed

lemma objf_routes_of:
  fixes D :: "'a::monoid_add table"
  assumes "depot_bounded sol" "distinct_adj sol"
  shows "objf sol D = py_sum (map (\<lambda>r. objf r D) (routes_of sol))"
  using assms
proof (induction sol rule: depot_bounded_induct)
  case depot
  then show ?case by (simp add: routes_of_single objf_def py_sum_def)
next
  case (route seg rest)
  have "py_sum (map (\<lambda>r. objf r D) (routes_of (0 # seg @ 0 # rest)))
        = py_sum (objf (0 # seg @ [0]) D # map (\<lambda>r. objf r D) (routes_of (0 # rest)))"
    using route.hyps by (simp add: routes_of_route)
  also have "\<dots> = (case objf (0 # seg @ [0]) D of Inl e \<Rightarrow> Inl e
      | Inr v \<Rightarrow> (case py_sum (map (\<lambda>r. objf r D) (routes_of (0 # rest))) of
                    Inl e \<Rightarrow> Inl e | Inr w \<Rightarrow> Inr (v + w)))"
    by (rule py_sum_Cons)
  also have "\<dots> = (case objf (0 # seg @ [0]) D of Inl e \<Rightarrow> Inl e
      | Inr v \<Rightarrow> (case objf (0 # rest) D of Inl e \<Rightarrow> Inl e | Inr w \<Rightarrow> Inr (v + w)))"
    by (simp only: route.IH)
  also have "\<dots> = objf (0 # seg @ 0 # rest) D"
    by (rule objf_route_split [symmetric])
  finally show ?case by (rule sym)
qed

lemma spacing_below: "a < 9007199254740992 \<Longrightarrow> spacing a = 1"
  by (subst spacing.simps) simp

lemma spacing_next:
  "9007199254740992 \<le> a \<Longrightarrow> a < 18014398509481984 \<Longrightarrow> spacing a = 2"
  by (subst spacing.simps) (simp add: spacing_below)

text \<open>
  Claim C7 says that \<open>objf sol D\<close> equals the sum of \<open>objf r D\<close> over the routes of
  \<open>sol2routes sol\<close> for every distance table \<open>D\<close>. On a table of doubles the two sums
  round differently. With \<open>D[0,1] = 1e16\<close> and the other three legs of length one, the
  sequence \<open>[0, 1, 0, 2, 0]\<close> sums to \<open>1e16\<close>, each added one being rounded away, while
  its routes sum to \<open>1e16\<close> and \<open>2\<close>, together \<open>1.0000000000000002e16\<close>.
\<close>

theorem objf_float_counterexample:
  "depot_bounded [0, 1, 0, 2, 0] \<and> distinct_adj [0, 1, 0, 2, 0::int] \<and>
   round53 10000000000000000 = 10000000000000000 \<and>
   sol2routes [0, 1, 0, 2, 0] = [[0, 1, 0], [0, 2, 0]] \<and>
   objf [0, 1, 0, 2, 0]
     (table_of_rows [[F64 0, F64 10000000000000000, F64 1],
                     [F64 1, F64 0, F64 0],
                     [F64 1, F64 0, F64 0]])
     = Inr (F64 10000000000000000) \<and>
   py_sum
     [objf [0, 1, 0]
        (table_of_rows [[F64 0, F64 10000000000000000, F64 1],
                        [F64 1, F64 0, F64 0],
                        [F64 1, F64 0, F64 0]]),
      objf [0, 2, 0]
        (table_of_rows [[F64 0, F64 10000000000000000, F64 1],
                        [F64 1, F64 0, F64 0],
                        [F64 1, F64 0, F64 0]])]
     = Inr (F64 10000000000000002)"
  by (simp add: depot_bounded_def sol2routes_def objf_def py_sum_def table_of_rows_def
      array_index_def upt_rec zero_f64_def round53_def Let_def spacing_below spacing_next)

text \<open>
  Claim C7, as amended. For every depot-bounded solution without consecutive duplicate
  values and every distance table \<open>D\<close> whose numbers add exactly (an associative addition
  with neutral zero, as that of integers), \<open>objf sol D\<close> equals the sum of \<open>objf r D\<close>
  over the routes \<open>r\<close> of \<open>sol2routes sol\<close>; when a lookup raises, both sides raise the
  same exception.
\<close>

theorem objf_additive:
  fixes D :: "'a::monoid_add table"
  shows "depot_bounded sol \<Longrightarrow> distinct_adj sol \<Longrightarrow>
   objf sol D = py_sum (map (\<lambda>r. objf r D) (sol2routes sol))"
  by (simp add: objf_routes_of sol2routes_routes_of)

theorem objf_additive_witness:
  "depot_bounded [0, 2, 1, 0, 2, 0] \<and> distinct_adj [0, 2, 1, 0, 2, 0::int] \<and>
   sol2routes [0, 2, 1, 0, 2, 0] = [[0, 2, 1, 0], [0, 2, 0]] \<and>
   objf [0, 2, 1, 0, 2, 0] (table_of_rows [[0, 3, 5], [4, 0, 7], [6, 8, 0::int]]) = Inr 28 \<and>
   py_sum (map (\<lambda>r. objf r (table_of_rows [[0, 3, 5], [4, 0, 7], [6, 8, 0::int]]))
     (sol2routes [0, 2, 1, 0, 2, 0])) = Inr 28"
  using objf_additive [of "[0, 2, 1, 0, 2, 0]" "table_of_rows [[0, 3, 5], [4, 0, 7], [6, 8, 0::int]]"]
  by (simp add: depot_bounded_def sol2routes_def objf_def py_sum_def table_of_rows_def
      array_index_def upt_rec)

subsection \<open>The ordered set under add and remove\<close>


lemma set_first_occurrences [simp]: "set (first_occurrences xs) = set xs"
  by (induction xs) auto

lemma distinct_first_occurrences [simp]: "distinct (first_occurrences xs)"
  by (induction xs) (auto simp: distinct_removeAll)















end
